theory Spec2Isabelle
  imports
    Main
    "HOL-Library.Word"
    "HOL-Library.Sublist"
    "HOL-Library.List_Lexorder"
    "HOL-Library.Char_ord"
    "HOL-Library.Product_Lexorder"
begin

section \<open>Data model (internal/models/models.go)\<close>

text \<open>
  Go's \<^verbatim>\<open>int\<close> is taken at its 64-bit width: \<open>+\<close> wraps, comparisons are the signed
  ones (\<open><s\<close>, \<open>\<le>s\<close>). Go strings are byte sequences, here \<open>string\<close>. A
  \<^verbatim>\<open>time.Time\<close> is kept as an opaque integer instant. Loggers are left out: no
  function below reads what was logged.
\<close>

type_synonym go_int = "64 word"

record RepoMetadata =
  Owner :: string
  Name :: string
  URL :: string
  Description :: string
  Language :: string
  Topics :: "string list"
  Stars :: go_int
  Forks :: go_int
  StarsToday :: go_int
  StarsThisWeek :: go_int
  StarsThisMonth :: go_int
  CreatedAt :: int

definition RepoMetadata_Key :: "RepoMetadata \<Rightarrow> string" where
  "RepoMetadata_Key r = Owner r @ ''/'' @ Name r"

record ClassifiedRepo =
  Metadata :: RepoMetadata
  Categories :: "string list"
  PrimaryCategory :: string
  MatchScore :: go_int

definition ClassifiedRepo_Key :: "ClassifiedRepo \<Rightarrow> string" where
  "ClassifiedRepo_Key c = RepoMetadata_Key (Metadata c)"

record ScoredRepo =
  Repo :: ClassifiedRepo
  TotalStars :: go_int
  Heat7 :: go_int
  Heat30 :: go_int
  Prev30 :: go_int
  Score :: go_int

definition ScoredRepo_Key :: "ScoredRepo \<Rightarrow> string" where
  "ScoredRepo_Key s = ClassifiedRepo_Key (Repo s)"

record RepoHistory =
  WeeksInTop :: go_int
  LastSeenReport :: string
  LastSeenDate :: string
  FirstSeenReport :: string
  FirstSeenDate :: string

text \<open>
  A Go \<^verbatim>\<open>map[string]RepoHistory\<close> is a finite map; the field of \<^verbatim>\<open>History\<close> holds a
  map that has been made (never nil) once \<^verbatim>\<open>LoadHistory\<close> or \<^verbatim>\<open>NewHistory\<close> returned it.
\<close>

record History =
  LatestReport :: string
  History :: "string \<rightharpoonup> RepoHistory"

definition NewHistory :: History where
  "NewHistory = \<lparr>LatestReport = [], History = Map.empty\<rparr>"

section \<open>Errors (internal/errors)\<close>

datatype go_error = ErrNotExist | ErrPermission | ErrIO | ErrJSON

datatype ErrorType =
    ErrorTypeConfig | ErrorTypeDataFetch | ErrorTypeFilesystem | ErrorTypeReportGen
  | ErrorTypeRepoFetch | ErrorTypeClassify | ErrorTypeCache
  | ErrorTypeRateLimit | ErrorTypeNetwork | ErrorTypeAPI | ErrorTypeLLM

record AppError =
  Type :: ErrorType
  Message :: string
  Context :: "(string \<times> string) list"
  Underlying :: go_error

definition NewFilesystemError :: "string \<Rightarrow> string \<Rightarrow> go_error \<Rightarrow> AppError" where
  "NewFilesystemError message path err =
     \<lparr>Type = ErrorTypeFilesystem, Message = message,
      Context = [(''path'', path)], Underlying = err\<rparr>"

section \<open>The file system and encoding/json, as the history manager sees them\<close>

text \<open>
  The bytes of a file are kept as what \<^verbatim>\<open>json.Unmarshal\<close> into a \<^verbatim>\<open>models.History\<close>
  makes of them: either it rejects them, or it yields the latest report and the history
  map, which stays nil (\<open>None\<close>) when the document has no \<^verbatim>\<open>"history"\<close> object.
  A read, a directory creation or a write may fail for a reason of the operating system
  (\<open>read_fault\<close>, \<open>mkdir_fault\<close>, \<open>write_fault\<close>).
\<close>

datatype file_content =
    Undecodable
  | Decodes string "(string \<rightharpoonup> RepoHistory) option"

record fsys =
  files :: "string \<rightharpoonup> file_content"
  read_fault :: "string \<Rightarrow> go_error option"
  mkdir_fault :: "string \<Rightarrow> go_error option"
  write_fault :: "string \<Rightarrow> go_error option"

definition os_Stat :: "fsys \<Rightarrow> string \<Rightarrow> go_error option" where
  "os_Stat fs path = (if files fs path = None then Some ErrNotExist else None)"

definition os_IsNotExist :: "go_error option \<Rightarrow> bool" where
  "os_IsNotExist err = (err = Some ErrNotExist)"

definition os_ReadFile :: "fsys \<Rightarrow> string \<Rightarrow> go_error + file_content" where
  "os_ReadFile fs path =
     (case read_fault fs path of
        Some err \<Rightarrow> Inl err
      | None \<Rightarrow> (case files fs path of None \<Rightarrow> Inl ErrNotExist | Some data \<Rightarrow> Inr data))"

definition json_Unmarshal ::
  "file_content \<Rightarrow> go_error + (string \<times> (string \<rightharpoonup> RepoHistory) option)" where
  "json_Unmarshal data =
     (case data of Undecodable \<Rightarrow> Inl ErrJSON | Decodes latest hm \<Rightarrow> Inr (latest, hm))"

definition json_MarshalIndent :: "History \<Rightarrow> file_content" where
  "json_MarshalIndent history = Decodes (LatestReport history) (Some (History history))"

section \<open>History manager (internal/history/history.go)\<close>

record Manager =
  historyPath :: string

definition LoadHistory :: "Manager \<Rightarrow> fsys \<Rightarrow> AppError + History" where
  "LoadHistory m fs =
     (if os_IsNotExist (os_Stat fs (historyPath m)) then Inr NewHistory
      else case os_ReadFile fs (historyPath m) of
        Inl err \<Rightarrow> Inl (NewFilesystemError ''failed to read history file'' (historyPath m) err)
      | Inr data \<Rightarrow>
          (case json_Unmarshal data of
             Inl err \<Rightarrow>
               Inl (NewFilesystemError ''failed to parse history file'' (historyPath m) err)
           | Inr (latest, hm) \<Rightarrow>
               Inr \<lparr>LatestReport = latest,
                    History = (case hm of None \<Rightarrow> Map.empty | Some entries \<Rightarrow> entries)\<rparr>))"

text \<open>The set of current keys, \<^verbatim>\<open>currentRepoKeys[repo.Key()] = true\<close> for each repo.\<close>

definition currentRepoKeys :: "ScoredRepo list \<Rightarrow> string \<Rightarrow> bool" where
  "currentRepoKeys currentTop =
     foldl (\<lambda>keys repo. keys(ScoredRepo_Key repo := True)) (\<lambda>_. False) currentTop"

text \<open>One round of the loop "update or initialize repos in current top".\<close>

definition updateEntry ::
  "string \<Rightarrow> string \<Rightarrow> (string \<rightharpoonup> RepoHistory) \<Rightarrow> ScoredRepo \<Rightarrow> (string \<rightharpoonup> RepoHistory)" where
  "updateEntry reportID reportDate hm repo =
     (let repoKey = ScoredRepo_Key repo in
      case hm repoKey of
        Some existingHistory \<Rightarrow>
          hm(repoKey \<mapsto> existingHistory
               \<lparr>WeeksInTop := WeeksInTop existingHistory + 1,
                LastSeenReport := reportID,
                LastSeenDate := reportDate\<rparr>)
      | None \<Rightarrow>
          hm(repoKey \<mapsto>
               \<lparr>WeeksInTop = 1, LastSeenReport = reportID, LastSeenDate = reportDate,
                FirstSeenReport = reportID, FirstSeenDate = reportDate\<rparr>))"

text \<open>
  The keys collected for removal, and their deletion. The order in which Go ranges over
  the map does not matter here: deletions of different keys commute.
\<close>

definition reposToRemove :: "(string \<rightharpoonup> RepoHistory) \<Rightarrow> (string \<Rightarrow> bool) \<Rightarrow> string set" where
  "reposToRemove hm keys = {repoKey \<in> dom hm. \<not> keys repoKey}"

definition deleteAll :: "(string \<rightharpoonup> RepoHistory) \<Rightarrow> string set \<Rightarrow> (string \<rightharpoonup> RepoHistory)" where
  "deleteAll hm ks = (\<lambda>repoKey. if repoKey \<in> ks then None else hm repoKey)"

definition UpdateHistory ::
  "Manager \<Rightarrow> fsys \<Rightarrow> ScoredRepo list \<Rightarrow> string \<Rightarrow> string \<Rightarrow> AppError + History" where
  "UpdateHistory m fs currentTop reportID reportDate =
     (case LoadHistory m fs of
        Inl err \<Rightarrow> Inl err
      | Inr history \<Rightarrow>
          (let keys = currentRepoKeys currentTop;
               hm = foldl (updateEntry reportID reportDate) (History history) currentTop;
               hm' = deleteAll hm (reposToRemove hm keys)
           in Inr \<lparr>LatestReport = reportID, History = hm'\<rparr>))"

text \<open>
  \<^verbatim>\<open>filepath.Dir\<close>: the path up to its last separator, \<^verbatim>\<open>.\<close> when there is none and
  \<^verbatim>\<open>/\<close> for a file in the root (the cleaning of redundant separators is not needed
  for the paths used here).
\<close>

definition filepath_Dir :: "string \<Rightarrow> string" where
  "filepath_Dir path =
     (let dir = rev (drop 1 (dropWhile (\<lambda>c. c \<noteq> CHR ''/'') (rev path))) in
      if CHR ''/'' \<notin> set path then ''.'' else if dir = [] then ''/'' else dir)"

text \<open>
  \<^verbatim>\<open>SaveHistory\<close>: on success the file holds the encoded history. What a failed write
  leaves on disk is not modelled: the result is then the error alone.
\<close>

definition SaveHistory :: "Manager \<Rightarrow> fsys \<Rightarrow> History \<Rightarrow> AppError + fsys" where
  "SaveHistory m fs history =
     (let dir = filepath_Dir (historyPath m) in
      case mkdir_fault fs dir of
        Some err \<Rightarrow> Inl (NewFilesystemError ''failed to create history directory'' dir err)
      | None \<Rightarrow>
          (let data = json_MarshalIndent history in
           case write_fault fs (historyPath m) of
             Some err \<Rightarrow>
               Inl (NewFilesystemError ''failed to write history file'' (historyPath m) err)
           | None \<Rightarrow> Inr (fs\<lparr>files := (files fs)(historyPath m \<mapsto> data)\<rparr>)))"

section \<open>The string functions the classifier calls (package strings)\<close>

text \<open>
  The case mapping and the white space are those of the ASCII range; other bytes are
  neither letters nor space. No theorem below depends on which bytes are letters or space.
\<close>

definition toLowerByte :: "char \<Rightarrow> char" where
  "toLowerByte c =
     (if CHR ''A'' \<le> c \<and> c \<le> CHR ''Z'' then char_of (of_char c + (32::nat)) else c)"

definition strings_ToLower :: "string \<Rightarrow> string" where
  "strings_ToLower s = map toLowerByte s"

definition strings_HasPrefix :: "string \<Rightarrow> string \<Rightarrow> bool" where
  "strings_HasPrefix s pre = (length pre \<le> length s \<and> take (length pre) s = pre)"

fun strings_Contains :: "string \<Rightarrow> string \<Rightarrow> bool" where
  "strings_Contains [] substr = (substr = [])"
| "strings_Contains (c # s) substr =
     (strings_HasPrefix (c # s) substr \<or> strings_Contains s substr)"

definition isSpace :: "char \<Rightarrow> bool" where
  "isSpace c = (c \<in> set [CHR 0x09, CHR 0x0A, CHR 0x0B, CHR 0x0C, CHR 0x0D, CHR 0x20])"

text \<open>\<^verbatim>\<open>strings.Fields\<close>: \<open>cur\<close> holds the field being read, last byte first.\<close>

fun fieldsFrom :: "string \<Rightarrow> string \<Rightarrow> string list" where
  "fieldsFrom cur [] = (if cur = [] then [] else [rev cur])"
| "fieldsFrom cur (c # s) =
     (if isSpace c then (if cur = [] then fieldsFrom [] s else rev cur # fieldsFrom [] s)
      else fieldsFrom (c # cur) s)"

definition strings_Fields :: "string \<Rightarrow> string list" where
  "strings_Fields s = fieldsFrom [] s"

definition strings_Trim :: "string \<Rightarrow> string \<Rightarrow> string" where
  "strings_Trim s cutset =
     rev (dropWhile (\<lambda>c. c \<in> set cutset) (rev (dropWhile (\<lambda>c. c \<in> set cutset) s)))"

fun strings_Join :: "string list \<Rightarrow> string \<Rightarrow> string" where
  "strings_Join [] sep = []"
| "strings_Join [p] sep = p"
| "strings_Join (p # q # ps) sep = p @ sep @ strings_Join (q # ps) sep"

section \<open>Classifier (internal/classifier/classifier.go)\<close>

text \<open>
  \<^verbatim>\<open>KeywordConfig.Categories\<close> is a Go map. A \<^verbatim>\<open>range\<close> over it yields its keys in an
  order the language leaves unspecified and that changes from one loop to the next; the
  functions that range over the map take that order as the argument \<open>order\<close>, a list of
  the keys of the map without repetition (\<open>iteration_order\<close>).
\<close>

record KeywordConfig =
  Include :: "string list"
  Exclude :: "string list"
  CategoryKeywords :: "string \<rightharpoonup> string list"

definition iteration_order :: "KeywordConfig \<Rightarrow> string list \<Rightarrow> bool" where
  "iteration_order kw order = (distinct order \<and> set order = dom (CategoryKeywords kw))"

definition buildSearchText :: "RepoMetadata \<Rightarrow> string" where
  "buildSearchText repo =
     strings_ToLower (strings_Join ([Name repo, Description repo] @ Topics repo) '' '')"

definition punctuation :: string where
  "punctuation = ''.,;:!?()[]{}'' @ [CHR 0x22, CHR 0x27]"

text \<open>The loop over the words of the text in \<^verbatim>\<open>matchesKeyword\<close>.\<close>

fun matchesWord :: "string \<Rightarrow> string list \<Rightarrow> bool" where
  "matchesWord keyword [] = False"
| "matchesWord keyword (w # words) =
     (let word = strings_Trim w punctuation in
      if word = keyword \<or> word = keyword @ ''s'' then True
      else if 4 \<le> length keyword \<and> strings_HasPrefix word keyword then True
      else matchesWord keyword words)"

definition matchesKeyword :: "string \<Rightarrow> string \<Rightarrow> bool" where
  "matchesKeyword text0 keyword0 =
     (let keyword = strings_ToLower keyword0;
          text = strings_ToLower text0 in
      if strings_Contains keyword ''-'' then strings_Contains text keyword
      else matchesWord keyword (strings_Fields text))"

text \<open>
  The matching rule as the specification words it, to be compared with the code:
  substring for a keyword with a hyphen; otherwise some trimmed token is the keyword, its
  plural in \<^verbatim>\<open>s\<close>, or (keywords of 4 bytes and more) begins with the keyword.
\<close>

definition matchesKeyword_spec :: "string \<Rightarrow> string \<Rightarrow> bool" where
  "matchesKeyword_spec text0 keyword0 =
     (let keyword = strings_ToLower keyword0;
          text = strings_ToLower text0 in
      if CHR ''-'' \<in> set keyword then sublist keyword text
      else (\<exists>token \<in> set (map (\<lambda>w. strings_Trim w punctuation) (strings_Fields text)).
              token = keyword \<or> token = keyword @ ''s'' \<or>
              (4 \<le> length keyword \<and> prefix keyword token)))"

text \<open>The loop "return true at the first keyword that matches".\<close>

fun matchesAny :: "string \<Rightarrow> string list \<Rightarrow> bool" where
  "matchesAny searchText [] = False"
| "matchesAny searchText (keyword # keywords) =
     (if matchesKeyword searchText keyword then True else matchesAny searchText keywords)"

definition matchesInclude :: "KeywordConfig \<Rightarrow> RepoMetadata \<Rightarrow> bool" where
  "matchesInclude kw repo = matchesAny (buildSearchText repo) (Include kw)"

definition matchesExclude :: "KeywordConfig \<Rightarrow> RepoMetadata \<Rightarrow> bool" where
  "matchesExclude kw repo = matchesAny (buildSearchText repo) (Exclude kw)"

text \<open>Reading a Go map at a missing key gives the nil slice.\<close>

definition keywordsOf :: "KeywordConfig \<Rightarrow> string \<Rightarrow> string list" where
  "keywordsOf kw categoryName =
     (case CategoryKeywords kw categoryName of None \<Rightarrow> [] | Some keywords \<Rightarrow> keywords)"

definition assignCategories :: "KeywordConfig \<Rightarrow> string list \<Rightarrow> RepoMetadata \<Rightarrow> string list" where
  "assignCategories kw order repo =
     (let searchText = buildSearchText repo in
      filter (\<lambda>categoryName. matchesAny searchText (keywordsOf kw categoryName)) order)"

text \<open>The counter \<^verbatim>\<open>matches\<close> of one category.\<close>

definition countMatches :: "string \<Rightarrow> string list \<Rightarrow> go_int" where
  "countMatches searchText keywords =
     foldl (\<lambda>matches keyword. if matchesKeyword searchText keyword then matches + 1 else matches)
       0 keywords"

definition primaryStep ::
  "KeywordConfig \<Rightarrow> string \<Rightarrow> go_int \<times> string \<Rightarrow> string \<Rightarrow> go_int \<times> string" where
  "primaryStep kw searchText state categoryName =
     (let maxMatches = fst state;
          matches = countMatches searchText (keywordsOf kw categoryName) in
      if maxMatches <s matches then (matches, categoryName) else state)"

definition selectPrimaryCategory :: "KeywordConfig \<Rightarrow> RepoMetadata \<Rightarrow> string list \<Rightarrow> string" where
  "selectPrimaryCategory kw repo categories =
     (case categories of
        [] \<Rightarrow> []
      | first # _ \<Rightarrow>
          snd (foldl (primaryStep kw (buildSearchText repo)) (0, first) categories))"

definition calculateMatchScore :: "KeywordConfig \<Rightarrow> string list \<Rightarrow> RepoMetadata \<Rightarrow> go_int" where
  "calculateMatchScore kw order repo =
     (let searchText = buildSearchText repo;
          score = countMatches searchText (Include kw) in
      foldl (\<lambda>score categoryName. score + countMatches searchText (keywordsOf kw categoryName))
        score order)"

text \<open>
  \<^verbatim>\<open>Classify\<close>: \<open>orders i\<close> is the order in which the map is ranged over while the
  repo at index \<open>i\<close> of the input is classified.
\<close>

fun classifyFrom ::
  "KeywordConfig \<Rightarrow> (nat \<Rightarrow> string list) \<Rightarrow> nat \<Rightarrow> RepoMetadata list \<Rightarrow> ClassifiedRepo list" where
  "classifyFrom kw orders i [] = []"
| "classifyFrom kw orders i (repo # repos) =
     (if matchesInclude kw repo \<and> \<not> matchesExclude kw repo then
        (let categories = assignCategories kw (orders i) repo;
             primaryCategory = selectPrimaryCategory kw repo categories;
             matchScore = calculateMatchScore kw (orders i) repo in
         \<lparr>Metadata = repo, Categories = categories,
          PrimaryCategory = primaryCategory, MatchScore = matchScore\<rparr>
           # classifyFrom kw orders (Suc i) repos)
      else classifyFrom kw orders (Suc i) repos)"

definition Classify ::
  "KeywordConfig \<Rightarrow> (nat \<Rightarrow> string list) \<Rightarrow> RepoMetadata list \<Rightarrow> ClassifiedRepo list" where
  "Classify kw orders repos = classifyFrom kw orders 0 repos"

section \<open>Score calculator: ranking (internal/calculator)\<close>

text \<open>The comparison handed to \<^verbatim>\<open>sort.SliceStable\<close>, on the two elements it reads.\<close>

definition rankLess :: "ScoredRepo \<Rightarrow> ScoredRepo \<Rightarrow> bool" where
  "rankLess a b =
     (if Heat30 a \<noteq> Heat30 b then Heat30 b <s Heat30 a else Score b <s Score a)"

text \<open>
  \<^verbatim>\<open>sort.SliceStable\<close> is the standard library's stable sort. Its result is modelled by
  stable insertion with the caller's comparison \<open>lt\<close>: an element moves past those
  that are \<open>lt\<close> it and stops before the first that is not.
\<close>

fun insertStable :: "('a \<Rightarrow> 'a \<Rightarrow> bool) \<Rightarrow> 'a \<Rightarrow> 'a list \<Rightarrow> 'a list" where
  "insertStable lt x [] = [x]"
| "insertStable lt x (y # ys) =
     (if lt y x then y # insertStable lt x ys else x # y # ys)"

definition stableSort :: "('a \<Rightarrow> 'a \<Rightarrow> bool) \<Rightarrow> 'a list \<Rightarrow> 'a list" where
  "stableSort lt xs = foldr (insertStable lt) xs []"

subsection \<open>Slices and their backing arrays\<close>

text \<open>
  A slice is a window (\<open>s_off\<close>, \<open>s_len\<close>) on a backing array, named by its address
  \<open>s_arr\<close>; two slices on the same array alias. The store maps addresses to arrays and
  \<open>next_arr\<close> is the first address never allocated.
\<close>

record slice =
  s_arr :: nat
  s_off :: nat
  s_len :: nat

record store =
  arrays :: "nat \<Rightarrow> ScoredRepo list"
  next_arr :: nat

definition zeroScoredRepo :: ScoredRepo where
  "zeroScoredRepo =
     \<lparr>Repo = \<lparr>Metadata = \<lparr>Owner = [], Name = [], URL = [], Description = [], Language = [],
                           Topics = [], Stars = 0, Forks = 0, StarsToday = 0,
                           StarsThisWeek = 0, StarsThisMonth = 0, CreatedAt = 0\<rparr>,
              Categories = [], PrimaryCategory = [], MatchScore = 0\<rparr>,
      TotalStars = 0, Heat7 = 0, Heat30 = 0, Prev30 = 0, Score = 0\<rparr>"

definition slice_valid :: "store \<Rightarrow> slice \<Rightarrow> bool" where
  "slice_valid st s =
     (s_arr s < next_arr st \<and> s_off s + s_len s \<le> length (arrays st (s_arr s)))"

definition slice_read :: "store \<Rightarrow> slice \<Rightarrow> ScoredRepo list" where
  "slice_read st s = take (s_len s) (drop (s_off s) (arrays st (s_arr s)))"

definition slice_write :: "store \<Rightarrow> slice \<Rightarrow> ScoredRepo list \<Rightarrow> store" where
  "slice_write st s xs =
     (let a = arrays st (s_arr s) in
      st\<lparr>arrays := (arrays st)
            (s_arr s := take (s_off s) a @ xs @ drop (s_off s + length xs) a)\<rparr>)"

definition make_slice :: "store \<Rightarrow> nat \<Rightarrow> slice \<times> store" where
  "make_slice st n =
     (\<lparr>s_arr = next_arr st, s_off = 0, s_len = n\<rparr>,
      st\<lparr>arrays := (arrays st)(next_arr st := replicate n zeroScoredRepo),
         next_arr := Suc (next_arr st)\<rparr>)"

definition copy_slice :: "store \<Rightarrow> slice \<Rightarrow> slice \<Rightarrow> store" where
  "copy_slice st dst src =
     slice_write st dst (take (min (s_len dst) (s_len src)) (slice_read st src))"

definition sort_SliceStable ::
  "store \<Rightarrow> slice \<Rightarrow> (ScoredRepo \<Rightarrow> ScoredRepo \<Rightarrow> bool) \<Rightarrow> store" where
  "sort_SliceStable st s lt = slice_write st s (stableSort lt (slice_read st s))"

datatype panic = NilPointerDereference | SliceBoundsOutOfRange

definition RankRepositories :: "store \<Rightarrow> slice \<Rightarrow> slice \<times> store" where
  "RankRepositories st scoredRepos =
     (let (ranked, st1) = make_slice st (s_len scoredRepos);
          st2 = copy_slice st1 ranked scoredRepos;
          st3 = sort_SliceStable st2 ranked rankLess
      in (ranked, st3))"

text \<open>
  \<^verbatim>\<open>ranked[:topN]\<close> panics when \<open>topN\<close> is negative; the test \<^verbatim>\<open>len(ranked) > topN\<close>
  before it keeps \<open>topN\<close> below the capacity.
\<close>

definition RankAndSelectTop :: "store \<Rightarrow> slice \<Rightarrow> go_int \<Rightarrow> (panic + slice) \<times> store" where
  "RankAndSelectTop st scoredRepos topN =
     (let (ranked, st') = RankRepositories st scoredRepos in
      if sint topN < int (s_len ranked) then
        (if topN <s 0 then (Inl SliceBoundsOutOfRange, st')
         else (Inr (ranked\<lparr>s_len := nat (sint topN)\<rparr>), st'))
      else (Inr ranked, st'))"

section \<open>Summary builder (internal/summary)\<close>

text \<open>
  Of \<^verbatim>\<open>SummaryJSON\<close> the fields \<^verbatim>\<open>Meta\<close>, \<^verbatim>\<open>DarkHorses\<close>, \<^verbatim>\<open>Repeaters\<close> and \<^verbatim>\<open>TopRepos\<close>
  are modelled. \<^verbatim>\<open>Categories\<close> (floating-point averages, listed in map order),
  \<^verbatim>\<open>Languages\<close> (map order) and \<^verbatim>\<open>NewRepos\<close> (the wall clock) are left out; they are
  computed from the top repos alone and none of them reads or changes the others.
\<close>

record Settings =
  WindowDays :: go_int
  ShortWindowDays :: go_int
  TopN :: go_int
  NewRepoThresholdDays :: go_int
  DarkHorseAccelThreshold :: go_int
  CacheTTLHours :: go_int
  ReportLanguage :: string
  ReportIDFormat :: string
  FilterDomain :: string

record MetaInfo =
  RunDate :: string
  MetaInfo_WindowDays :: go_int
  MetaInfo_ShortWindowDays :: go_int
  MetaInfo_TopN :: go_int
  MetaInfo_FilterDomain :: string

record DarkHorseInfo =
  DarkHorseInfo_RepoKey :: string
  DarkHorseInfo_RepoName :: string
  DarkHorseInfo_URL :: string
  DarkHorseInfo_Score :: go_int
  DarkHorseInfo_Heat30 :: go_int
  DarkHorseInfo_Heat7 :: go_int
  DarkHorseInfo_Category :: string

record RepeaterInfo =
  RepeaterInfo_RepoKey :: string
  RepeaterInfo_RepoName :: string
  RepeaterInfo_URL :: string
  RepeaterInfo_WeeksInTop :: go_int
  CurrentHeat7 :: go_int
  RepeaterInfo_Category :: string

record TopRepoInfo =
  Rank :: go_int
  TopRepoInfo_RepoKey :: string
  TopRepoInfo_RepoName :: string
  TopRepoInfo_URL :: string
  TopRepoInfo_Category :: string
  TopRepoInfo_Language :: string
  TopRepoInfo_Heat7 :: go_int
  TopRepoInfo_Heat30 :: go_int
  TopRepoInfo_Score :: go_int
  TopRepoInfo_Description :: string

record SummaryJSON =
  Meta :: MetaInfo
  DarkHorses :: "DarkHorseInfo list"
  Repeaters :: "RepeaterInfo list"
  TopRepos :: "TopRepoInfo list"

definition buildMeta :: "Settings \<Rightarrow> string \<Rightarrow> MetaInfo" where
  "buildMeta settings runDate =
     \<lparr>RunDate = runDate,
      MetaInfo_WindowDays = WindowDays settings,
      MetaInfo_ShortWindowDays = ShortWindowDays settings,
      MetaInfo_TopN = TopN settings,
      MetaInfo_FilterDomain = FilterDomain settings\<rparr>"

fun identifyDarkHorses :: "Settings \<Rightarrow> ScoredRepo list \<Rightarrow> DarkHorseInfo list" where
  "identifyDarkHorses settings [] = []"
| "identifyDarkHorses settings (repo # repos) =
     (if DarkHorseAccelThreshold settings \<le>s Score repo then
        \<lparr>DarkHorseInfo_RepoKey = ScoredRepo_Key repo,
         DarkHorseInfo_RepoName = Name (Metadata (Repo repo)),
         DarkHorseInfo_URL = URL (Metadata (Repo repo)),
         DarkHorseInfo_Score = Score repo,
         DarkHorseInfo_Heat30 = Heat30 repo,
         DarkHorseInfo_Heat7 = Heat7 repo,
         DarkHorseInfo_Category = PrimaryCategory (Repo repo)\<rparr>
          # identifyDarkHorses settings repos
      else identifyDarkHorses settings repos)"

text \<open>The loop of \<^verbatim>\<open>identifyRepeaters\<close>, over a history that is there.\<close>

fun repeatersOf :: "History \<Rightarrow> ScoredRepo list \<Rightarrow> RepeaterInfo list" where
  "repeatersOf history [] = []"
| "repeatersOf history (repo # repos) =
     (let key = ScoredRepo_Key repo in
      case History history key of
        Some histEntry \<Rightarrow>
          (if 2 \<le>s WeeksInTop histEntry then
             \<lparr>RepeaterInfo_RepoKey = key,
              RepeaterInfo_RepoName = Name (Metadata (Repo repo)),
              RepeaterInfo_URL = URL (Metadata (Repo repo)),
              RepeaterInfo_WeeksInTop = WeeksInTop histEntry,
              CurrentHeat7 = Heat7 repo,
              RepeaterInfo_Category = PrimaryCategory (Repo repo)\<rparr>
               # repeatersOf history repos
           else repeatersOf history repos)
      | None \<Rightarrow> repeatersOf history repos)"

text \<open>
  The history comes as a pointer. The first round of the loop reads through it, so a nil
  pointer panics as soon as there is a repo to look up.
\<close>

definition identifyRepeaters :: "ScoredRepo list \<Rightarrow> History option \<Rightarrow> panic + RepeaterInfo list" where
  "identifyRepeaters repos history =
     (case history of
        None \<Rightarrow> (if repos = [] then Inr [] else Inl NilPointerDereference)
      | Some h \<Rightarrow> Inr (repeatersOf h repos))"

definition buildTopRepos :: "ScoredRepo list \<Rightarrow> TopRepoInfo list" where
  "buildTopRepos repos =
     map (\<lambda>(i, repo).
            \<lparr>Rank = of_nat i + 1,
             TopRepoInfo_RepoKey = ScoredRepo_Key repo,
             TopRepoInfo_RepoName = Name (Metadata (Repo repo)),
             TopRepoInfo_URL = URL (Metadata (Repo repo)),
             TopRepoInfo_Category = PrimaryCategory (Repo repo),
             TopRepoInfo_Language = Language (Metadata (Repo repo)),
             TopRepoInfo_Heat7 = Heat7 repo,
             TopRepoInfo_Heat30 = Heat30 repo,
             TopRepoInfo_Score = Score repo,
             TopRepoInfo_Description = Description (Metadata (Repo repo))\<rparr>)
         (enumerate 0 repos)"

definition BuildSummary ::
  "Settings \<Rightarrow> ScoredRepo list \<Rightarrow> History option \<Rightarrow> string \<Rightarrow> panic + SummaryJSON" where
  "BuildSummary settings topRepos history runDate =
     (case identifyRepeaters topRepos history of
        Inl p \<Rightarrow> Inl p
      | Inr repeaters \<Rightarrow>
          Inr \<lparr>Meta = buildMeta settings runDate,
               DarkHorses = identifyDarkHorses settings topRepos,
               Repeaters = repeaters,
               TopRepos = buildTopRepos topRepos\<rparr>)"

section \<open>Notions used to state the properties\<close>

text \<open>The number of keywords of a category that match the search text of a repo.\<close>

definition matchCount :: "KeywordConfig \<Rightarrow> RepoMetadata \<Rightarrow> string \<Rightarrow> nat" where
  "matchCount kw repo categoryName =
     length (filter (matchesKeyword (buildSearchText repo)) (keywordsOf kw categoryName))"

text \<open>\<open>p\<close> is the first element of \<open>cs\<close> at which \<open>f\<close> is largest.\<close>

definition first_maximum :: "(string \<Rightarrow> nat) \<Rightarrow> string list \<Rightarrow> string \<Rightarrow> bool" where
  "first_maximum f cs p =
     (\<exists>pre post. cs = pre @ p # post \<and>
        (\<forall>c \<in> set pre. f c < f p) \<and> (\<forall>c \<in> set post. f c \<le> f p))"

text \<open>The largest \<^verbatim>\<open>int\<close>, which bounds the length of every slice.\<close>

definition MaxInt :: nat where
  "MaxInt = 2 ^ 63 - 1"

text \<open>
  The sort key of the ranking: ascending order of \<open>rankKey\<close> is Heat_30 descending, then
  Score descending. The stable sort by a key is \<open>sort_key\<close> of the list library.
\<close>

definition rankKey :: "ScoredRepo \<Rightarrow> int \<times> int" where
  "rankKey r = (- sint (Heat30 r), - sint (Score r))"

text \<open>
  A session of the history manager: \<^verbatim>\<open>LoadHistory\<close>, then a sequence of calls of
  \<^verbatim>\<open>UpdateHistory\<close> (top repos, report ID, report date), the result of each saved by
  \<^verbatim>\<open>SaveHistory\<close> before the next, as step 4 of the pipeline does; the first error ends
  it. The result is the history of the last call.
\<close>

fun historyRuns ::
  "Manager \<Rightarrow> fsys \<Rightarrow> History \<Rightarrow> (ScoredRepo list \<times> string \<times> string) list \<Rightarrow>
     AppError + History" where
  "historyRuns m fs history [] = Inr history"
| "historyRuns m fs history ((currentTop, reportID, reportDate) # calls) =
     (case UpdateHistory m fs currentTop reportID reportDate of
        Inl err \<Rightarrow> Inl err
      | Inr history' \<Rightarrow>
          (case SaveHistory m fs history' of
             Inl err \<Rightarrow> Inl err
           | Inr fs' \<Rightarrow> historyRuns m fs' history' calls))"

definition historySession ::
  "Manager \<Rightarrow> fsys \<Rightarrow> (ScoredRepo list \<times> string \<times> string) list \<Rightarrow> AppError + History" where
  "historySession m fs calls =
     (case LoadHistory m fs of
        Inl err \<Rightarrow> Inl err
      | Inr history \<Rightarrow> historyRuns m fs history calls)"

text \<open>
  Every entry of \<open>h\<close> was first seen no later than it was last seen, and no later than
  the dates \<open>ds\<close>.
\<close>

definition dated :: "History \<Rightarrow> string list \<Rightarrow> bool" where
  "dated h ds =
     (\<forall>k e. History h k = Some e \<longrightarrow>
        FirstSeenDate e \<le> LastSeenDate e \<and> (\<forall>d \<in> set ds. FirstSeenDate e \<le> d))"

section \<open>Sample inputs\<close>

definition sampleRepo :: "string \<Rightarrow> string \<Rightarrow> go_int \<Rightarrow> go_int \<Rightarrow> ScoredRepo" where
  "sampleRepo owner name heat30 score =
     zeroScoredRepo\<lparr>Repo := (Repo zeroScoredRepo)\<lparr>Metadata :=
        (Metadata (Repo zeroScoredRepo))\<lparr>Owner := owner, Name := name\<rparr>\<rparr>,
        Heat30 := heat30, Score := score\<rparr>"

definition sampleManager :: Manager where
  "sampleManager = \<lparr>historyPath = ''data/history.json''\<rparr>"

definition diskWith :: "file_content option \<Rightarrow> fsys" where
  "diskWith content =
     \<lparr>files = (\<lambda>path. if path = ''data/history.json'' then content else None),
      read_fault = (\<lambda>_. None), mkdir_fault = (\<lambda>_. None), write_fault = (\<lambda>_. None)\<rparr>"

definition sampleEntry :: "go_int \<Rightarrow> string \<Rightarrow> string \<Rightarrow> RepoHistory" where
  "sampleEntry weeks firstDate lastDate =
     \<lparr>WeeksInTop = weeks, LastSeenReport = lastDate, LastSeenDate = lastDate,
      FirstSeenReport = firstDate, FirstSeenDate = firstDate\<rparr>"

definition sampleMeta :: "string \<Rightarrow> string \<Rightarrow> string list \<Rightarrow> RepoMetadata" where
  "sampleMeta name description topics =
     (Metadata (Repo zeroScoredRepo))\<lparr>Owner := ''test'', Name := name,
        Description := description, Topics := topics\<rparr>"

definition sampleKeywords :: KeywordConfig where
  "sampleKeywords =
     \<lparr>Include = [''ai''], Exclude = [''tutorial''],
      CategoryKeywords =
        [''agent'' \<mapsto> [''agent'', ''autonomous''], ''llm'' \<mapsto> [''llm'', ''gpt'']]\<rparr>"

definition sampleSettings :: Settings where
  "sampleSettings =
     \<lparr>WindowDays = 30, ShortWindowDays = 7, TopN = 10, NewRepoThresholdDays = 90,
      DarkHorseAccelThreshold = 100, CacheTTLHours = 24, ReportLanguage = ''en'',
      ReportIDFormat = ''YYYY-MM-weekN'', FilterDomain = ''AI''\<rparr>"

definition sampleStore :: store where
  "sampleStore =
     \<lparr>arrays = (\<lambda>_. [])(0 :=
        [sampleRepo ''o1'' ''r1'' 5 1, sampleRepo ''o2'' ''r2'' 9 2,
         sampleRepo ''o3'' ''r3'' 5 1, sampleRepo ''o4'' ''r4'' 9 7]),
      next_arr = 1\<rparr>"

definition sampleSlice :: slice where
  "sampleSlice = \<lparr>s_arr = 0, s_off = 0, s_len = 4\<rparr>"

section \<open>Properties of the history manager\<close>

lemma sampleRepo_Key [simp]:
  "ScoredRepo_Key (sampleRepo owner name h s) = owner @ ''/'' @ name"
  by (simp add: sampleRepo_def ScoredRepo_Key_def ClassifiedRepo_Key_def RepoMetadata_Key_def)

lemma LoadHistory_diskWith [simp]:
  "LoadHistory sampleManager (diskWith None) = Inr NewHistory"
  "LoadHistory sampleManager (diskWith (Some Undecodable)) =
     Inl (NewFilesystemError ''failed to parse history file'' ''data/history.json'' ErrJSON)"
  "LoadHistory sampleManager (diskWith (Some (Decodes latest (Some hm)))) =
     Inr \<lparr>LatestReport = latest, History = hm\<rparr>"
  by (simp_all add: LoadHistory_def sampleManager_def diskWith_def os_Stat_def os_IsNotExist_def
        os_ReadFile_def json_Unmarshal_def)



subsection \<open>What one update does to every key\<close>

lemma foldl_updateEntry:
  "foldl (updateEntry r d) hm xs k =
     (if k \<in> set (map ScoredRepo_Key xs)
      then Some (case hm k of
                   Some e \<Rightarrow>
                     e\<lparr>WeeksInTop := WeeksInTop e + of_nat (count_list (map ScoredRepo_Key xs) k),
                       LastSeenReport := r, LastSeenDate := d\<rparr>
                 | None \<Rightarrow>
                     \<lparr>WeeksInTop = of_nat (count_list (map ScoredRepo_Key xs) k),
                      LastSeenReport = r, LastSeenDate = d,
                      FirstSeenReport = r, FirstSeenDate = d\<rparr>)
      else hm k)"
proof (induction xs arbitrary: hm)
  case Nil
  then show ?case by simp
next
  case (Cons x xs)
  show ?case
    by (simp add: Cons.IH) (auto simp: updateEntry_def Let_def split: option.splits)
qed

lemma currentRepoKeys_iff: "currentRepoKeys xs k \<longleftrightarrow> k \<in> set (map ScoredRepo_Key xs)"
proof -
  have "foldl (\<lambda>keys repo. keys(ScoredRepo_Key repo := True)) f xs k
          \<longleftrightarrow> f k \<or> k \<in> set (map ScoredRepo_Key xs)" for f
    by (induction xs arbitrary: f) auto
  then show ?thesis by (simp add: currentRepoKeys_def)
qed

lemma UpdateHistory_entries:
  assumes "LoadHistory m fs = Inr h"
  shows "UpdateHistory m fs cur r d =
     Inr \<lparr>LatestReport = r,
          History = (\<lambda>k. if k \<in> set (map ScoredRepo_Key cur)
             then foldl (updateEntry r d) (History h) cur k else None)\<rparr>"
  using assms
  by (auto simp: UpdateHistory_def Let_def deleteAll_def reposToRemove_def currentRepoKeys_iff
        foldl_updateEntry fun_eq_iff)

lemma count_list_distinct: "distinct ks \<Longrightarrow> k \<in> set ks \<Longrightarrow> count_list ks k = 1"
  by (induction ks) (auto simp: count_list_0_iff)

text \<open>
  C1, as stated, fails when a key occurs twice in \<^verbatim>\<open>currentTop\<close>: on an empty history
  the repeated key ends with \<^verbatim>\<open>weeks_in_top = 2\<close>, not the 1 of a fresh entry.
\<close>

theorem UpdateHistory_duplicate_key_counterexample:
  "UpdateHistory sampleManager (diskWith None)
     [sampleRepo ''o1'' ''r1'' 10 1, sampleRepo ''o1'' ''r1'' 10 1] ''w1'' ''2024-01-07'' =
   Inr \<lparr>LatestReport = ''w1'',
        History = [''o1/r1'' \<mapsto>
          \<lparr>WeeksInTop = 2, LastSeenReport = ''w1'', LastSeenDate = ''2024-01-07'',
           FirstSeenReport = ''w1'', FirstSeenDate = ''2024-01-07''\<rparr>]\<rparr> \<and>
   UpdateHistory sampleManager (diskWith None)
     [sampleRepo ''o1'' ''r1'' 10 1, sampleRepo ''o1'' ''r1'' 10 1] ''w1'' ''2024-01-07'' \<noteq>
   Inr \<lparr>LatestReport = ''w1'',
        History = [''o1/r1'' \<mapsto>
          \<lparr>WeeksInTop = 1, LastSeenReport = ''w1'', LastSeenDate = ''2024-01-07'',
           FirstSeenReport = ''w1'', FirstSeenDate = ''2024-01-07''\<rparr>]\<rparr>"
  by (simp add: UpdateHistory_entries [where h = NewHistory] NewHistory_def fun_eq_iff
        updateEntry_def Let_def)

text \<open>
  C1, amended. When the keys of \<^verbatim>\<open>currentTop\<close> are pairwise distinct and the load gives
  the history \<open>h\<close>, \<^verbatim>\<open>UpdateHistory\<close> returns a history whose latest report is \<open>r\<close> and
  whose map has exactly the keys of \<^verbatim>\<open>currentTop\<close>: a key of \<open>h\<close> keeps its entry with
  \<^verbatim>\<open>weeks_in_top\<close> incremented by 1 and the last-seen fields set to \<open>r\<close> and \<open>d\<close> (the
  first-seen fields are untouched), a new key gets a fresh entry with
  \<^verbatim>\<open>weeks_in_top = 1\<close> and all four seen fields from \<open>r\<close> and \<open>d\<close>, and every other key
  is absent.
\<close>

theorem UpdateHistory_distinct_keys:
  assumes "LoadHistory m fs = Inr h"
    and "distinct (map ScoredRepo_Key currentTop)"
  shows "\<exists>h'. UpdateHistory m fs currentTop r d = Inr h' \<and>
           LatestReport h' = r \<and>
           dom (History h') = set (map ScoredRepo_Key currentTop) \<and>
           (\<forall>k \<in> set (map ScoredRepo_Key currentTop).
              History h' k =
                Some (case History h k of
                        Some e \<Rightarrow> e\<lparr>WeeksInTop := WeeksInTop e + 1,
                                     LastSeenReport := r, LastSeenDate := d\<rparr>
                      | None \<Rightarrow> \<lparr>WeeksInTop = 1, LastSeenReport = r, LastSeenDate = d,
                                  FirstSeenReport = r, FirstSeenDate = d\<rparr>)) \<and>
           (\<forall>k. k \<notin> set (map ScoredRepo_Key currentTop) \<longrightarrow> History h' k = None)"
proof -
  let ?h' = "\<lparr>LatestReport = r,
          History = (\<lambda>k. if k \<in> set (map ScoredRepo_Key currentTop)
             then foldl (updateEntry r d) (History h) currentTop k else None)\<rparr>"
  have eq: "UpdateHistory m fs currentTop r d = Inr ?h'"
    by (rule UpdateHistory_entries [OF assms(1)])
  have one: "count_list (map ScoredRepo_Key currentTop) k = 1"
    if "k \<in> set (map ScoredRepo_Key currentTop)" for k
    using assms(2) that by (rule count_list_distinct)
  have "dom (History ?h') = set (map ScoredRepo_Key currentTop)"
    by (auto simp: foldl_updateEntry dom_def)
  moreover have "\<forall>k \<in> set (map ScoredRepo_Key currentTop).
              History ?h' k =
                Some (case History h k of
                        Some e \<Rightarrow> e\<lparr>WeeksInTop := WeeksInTop e + 1,
                                     LastSeenReport := r, LastSeenDate := d\<rparr>
                      | None \<Rightarrow> \<lparr>WeeksInTop = 1, LastSeenReport = r, LastSeenDate = d,
                                  FirstSeenReport = r, FirstSeenDate = d\<rparr>)"
    using one by (simp add: foldl_updateEntry split: option.splits)
  ultimately show ?thesis using eq by simp
qed

theorem UpdateHistory_distinct_keys_witness:
  "LoadHistory sampleManager
     (diskWith (Some (Decodes ''w1''
        (Some [''o1/r1'' \<mapsto> sampleEntry 1 ''2024-01-07'' ''2024-01-07''])))) =
     Inr \<lparr>LatestReport = ''w1'',
          History = [''o1/r1'' \<mapsto> sampleEntry 1 ''2024-01-07'' ''2024-01-07'']\<rparr> \<and>
   distinct (map ScoredRepo_Key [sampleRepo ''o1'' ''r1'' 10 1, sampleRepo ''o2'' ''r2'' 5 1]) \<and>
   (\<exists>h'. UpdateHistory sampleManager
       (diskWith (Some (Decodes ''w1''
          (Some [''o1/r1'' \<mapsto> sampleEntry 1 ''2024-01-07'' ''2024-01-07'']))))
       [sampleRepo ''o1'' ''r1'' 10 1, sampleRepo ''o2'' ''r2'' 5 1] ''w2'' ''2024-01-14'' = Inr h' \<and>
      LatestReport h' = ''w2'' \<and>
      History h' ''o1/r1'' =
        Some \<lparr>WeeksInTop = 2, LastSeenReport = ''w2'', LastSeenDate = ''2024-01-14'',
              FirstSeenReport = ''2024-01-07'', FirstSeenDate = ''2024-01-07''\<rparr> \<and>
      History h' ''o2/r2'' =
        Some \<lparr>WeeksInTop = 1, LastSeenReport = ''w2'', LastSeenDate = ''2024-01-14'',
              FirstSeenReport = ''w2'', FirstSeenDate = ''2024-01-14''\<rparr>)"
  using UpdateHistory_distinct_keys [where m = sampleManager
      and fs = "diskWith (Some (Decodes ''w1''
          (Some [''o1/r1'' \<mapsto> sampleEntry 1 ''2024-01-07'' ''2024-01-07''])))"
      and h = "\<lparr>LatestReport = ''w1'',
          History = [''o1/r1'' \<mapsto> sampleEntry 1 ''2024-01-07'' ''2024-01-07'']\<rparr>"
      and currentTop = "[sampleRepo ''o1'' ''r1'' 10 1, sampleRepo ''o2'' ''r2'' 5 1]"
      and r = "''w2''" and d = "''2024-01-14''"]
  by (auto simp: sampleEntry_def)

subsection \<open>The dates of an entry over a sequence of runs\<close>

lemma SaveHistory_LoadHistory:
  assumes "SaveHistory m fs h = Inr fs'" and "LoadHistory m fs' = Inr h'"
  shows "h' = h"
  using assms
  by (auto simp: SaveHistory_def LoadHistory_def Let_def os_Stat_def os_IsNotExist_def
      os_ReadFile_def json_Unmarshal_def json_MarshalIndent_def
      split: option.splits sum.splits if_splits)

lemma UpdateHistory_dated:
  assumes load: "LoadHistory m fs = Inr h"
    and inv: "dated h (d # ds)"
    and later: "\<forall>d' \<in> set ds. d \<le> d'"
    and upd: "UpdateHistory m fs cur r d = Inr h'"
  shows "dated h' ds"
proof -
  have h': "h' = \<lparr>LatestReport = r,
          History = (\<lambda>k. if k \<in> set (map ScoredRepo_Key cur)
             then foldl (updateEntry r d) (History h) cur k else None)\<rparr>"
    using UpdateHistory_entries [OF load, of cur r d] upd by simp
  show ?thesis
    unfolding dated_def
  proof (intro allI impI)
    fix k e
    assume e: "History h' k = Some e"
    then have k: "k \<in> set (map ScoredRepo_Key cur)"
      by (auto simp: h' split: if_splits)
    show "FirstSeenDate e \<le> LastSeenDate e \<and> (\<forall>d \<in> set ds. FirstSeenDate e \<le> d)"
    proof (cases "History h k")
      case None
      with e k have "FirstSeenDate e = d" "LastSeenDate e = d"
        by (auto simp: h' foldl_updateEntry)
      then show ?thesis using later by simp
    next
      case (Some e0)
      with e k have "FirstSeenDate e = FirstSeenDate e0" "LastSeenDate e = d"
        by (auto simp: h' foldl_updateEntry)
      moreover have "FirstSeenDate e0 \<le> d" "\<forall>d' \<in> set ds. FirstSeenDate e0 \<le> d'"
        using inv Some by (auto simp: dated_def)
      ultimately show ?thesis by simp
    qed
  qed
qed

lemma historyRuns_dated:
  assumes "\<forall>h0. LoadHistory m fs = Inr h0 \<longrightarrow> h0 = h"
    and "dated h (map (\<lambda>c. snd (snd c)) calls)"
    and "sorted (map (\<lambda>c. snd (snd c)) calls)"
    and "historyRuns m fs h calls = Inr hfin"
  shows "dated hfin []"
  using assms
proof (induction calls arbitrary: fs h)
  case Nil
  then show ?case by (simp add: dated_def)
next
  case (Cons c calls)
  obtain cur r d where c: "c = (cur, r, d)" by (cases c) auto
  from Cons.prems(4) obtain h' fs' where
    upd: "UpdateHistory m fs cur r d = Inr h'"
    and sav: "SaveHistory m fs h' = Inr fs'"
    and rest: "historyRuns m fs' h' calls = Inr hfin"
    by (auto simp: c split: sum.splits)
  from upd obtain h0 where load: "LoadHistory m fs = Inr h0"
    by (auto simp: UpdateHistory_def split: sum.splits)
  with Cons.prems(1) have load: "LoadHistory m fs = Inr h" by simp
  have later: "\<forall>d' \<in> set (map (\<lambda>c. snd (snd c)) calls). d \<le> d'"
    using Cons.prems(3) by (simp add: c)
  have inv: "dated h (d # map (\<lambda>c. snd (snd c)) calls)"
    using Cons.prems(2) by (simp add: c)
  have d': "dated h' (map (\<lambda>c. snd (snd c)) calls)"
    by (rule UpdateHistory_dated [OF load inv later upd])
  have sync: "\<forall>h0. LoadHistory m fs' = Inr h0 \<longrightarrow> h0 = h'"
    using SaveHistory_LoadHistory [OF sav] by blast
  have srt: "sorted (map (\<lambda>c. snd (snd c)) calls)"
    using Cons.prems(3) by simp
  show ?case
    by (rule Cons.IH [OF sync d' srt rest])
qed

lemma SaveHistory_diskWith:
  "SaveHistory sampleManager (diskWith c) h = Inr (diskWith (Some (json_MarshalIndent h)))"
  by (simp add: SaveHistory_def sampleManager_def diskWith_def Let_def fun_eq_iff)

lemma LoadHistory_saved:
  "LoadHistory sampleManager (diskWith (Some (json_MarshalIndent h))) = Inr h"
  by (simp add: json_MarshalIndent_def)

lemma historyRuns_diskWith:
  "LoadHistory sampleManager (diskWith c) = Inr h0 \<Longrightarrow>
   historyRuns sampleManager (diskWith c) h ((cur, r, d) # calls) =
     historyRuns sampleManager
       (diskWith (Some (json_MarshalIndent
          \<lparr>LatestReport = r,
           History = (\<lambda>k. if k \<in> set (map ScoredRepo_Key cur)
              then foldl (updateEntry r d) (History h0) cur k else None)\<rparr>)))
       \<lparr>LatestReport = r,
        History = (\<lambda>k. if k \<in> set (map ScoredRepo_Key cur)
           then foldl (updateEntry r d) (History h0) cur k else None)\<rparr>
       calls"
  by (simp add: UpdateHistory_entries SaveHistory_diskWith)

lemma date_order:
  "\<not> ''2024-02-01'' \<le> ''2024-01-01''"
  "''2024-01-07'' \<le> ''2024-01-14''"
  by simp_all





section \<open>Properties of the classifier\<close>

lemma strings_HasPrefix_iff: "strings_HasPrefix s pre \<longleftrightarrow> prefix pre s"
  by (auto simp: strings_HasPrefix_def prefix_def) (metis append_eq_conv_conj)

lemma strings_Contains_iff: "strings_Contains s sub \<longleftrightarrow> sublist sub s"
  by (induction s) (auto simp: sublist_Cons_right strings_HasPrefix_iff)

lemma strings_Contains_byte: "strings_Contains s [c] \<longleftrightarrow> c \<in> set s"
  by (induction s) (auto simp: strings_HasPrefix_def)

lemma matchesWord_iff:
  "matchesWord keyword ws \<longleftrightarrow>
     (\<exists>token \<in> set (map (\<lambda>w. strings_Trim w punctuation) ws).
        token = keyword \<or> token = keyword @ ''s'' \<or>
        (4 \<le> length keyword \<and> prefix keyword token))"
  by (induction ws) (auto simp: Let_def strings_HasPrefix_iff)

lemma matchesAny_iff: "matchesAny t ks \<longleftrightarrow> (\<exists>k \<in> set ks. matchesKeyword t k)"
  by (induction ks) auto

lemma matchesKeyword_samples:
  "matchesKeyword ''Agentic AI tools.'' ''Agent'' = True"
  "matchesKeyword ''ai-tutorial '' ''ai'' = False"
  "matchesKeyword ''a machine-learning kit'' ''Machine-Learning'' = True"
  by code_simp+



lemma classifyFrom_Metadata:
  "map Metadata (classifyFrom kw orders i repos) =
     filter (\<lambda>repo. matchesInclude kw repo \<and> \<not> matchesExclude kw repo) repos"
  by (induction repos arbitrary: i) (auto simp: Let_def)

lemma sampleMeta_fields [simp]:
  "Name (sampleMeta name description topics) = name"
  "Description (sampleMeta name description topics) = description"
  "Topics (sampleMeta name description topics) = topics"
  by (simp_all add: sampleMeta_def)

lemma sampleMeta_eq_iff [simp]:
  "sampleMeta n d t = sampleMeta n' d' t' \<longleftrightarrow> n = n' \<and> d = d' \<and> t = t'"
  by (auto simp: sampleMeta_def zeroScoredRepo_def)

lemma sample_search:
  "matchesKeyword (buildSearchText (sampleMeta ''ai-tutorial'' [] [])) ''ai'' = False"
  "matchesKeyword (buildSearchText (sampleMeta ''tutorial-repo'' ''AI tutorial'' [''ai'']))
     ''ai'' = True"
  "matchesKeyword (buildSearchText (sampleMeta ''tutorial-repo'' ''AI tutorial'' [''ai'']))
     ''tutorial'' = True"
  "matchesKeyword (buildSearchText (sampleMeta ''agent-kit'' ''An AI agent.'' [])) ''ai'' = True"
  "matchesKeyword (buildSearchText (sampleMeta ''agent-kit'' ''An AI agent.'' []))
     ''tutorial'' = False"
  by code_simp+



subsection \<open>The primary category\<close>

lemma sint_of_nat_small:
  "n \<le> MaxInt \<Longrightarrow> sint (of_nat n :: 64 word) = int n"
  by (simp add: signed_of_nat signed_take_bit_int_eq_self MaxInt_def)

lemma sless_of_nat:
  "a \<le> MaxInt \<Longrightarrow> b \<le> MaxInt \<Longrightarrow> ((of_nat a :: 64 word) <s of_nat b) = (a < b)"
  by (simp add: word_sless_alt sint_of_nat_small)

lemma countMatches_of_nat:
  "countMatches t ks = of_nat (length (filter (matchesKeyword t) ks))"
proof -
  have "foldl (\<lambda>matches keyword. if matchesKeyword t keyword then matches + 1 else matches)
          acc ks = acc + of_nat (length (filter (matchesKeyword t) ks))" for acc :: go_int
    by (induction ks arbitrary: acc) (auto simp: algebra_simps)
  then show ?thesis by (simp add: countMatches_def)
qed

lemma primaryStep_of_nat:
  "primaryStep kw (buildSearchText repo) (w, p) c =
     (if w <s of_nat (matchCount kw repo c) then (of_nat (matchCount kw repo c), c) else (w, p))"
  by (simp add: primaryStep_def Let_def countMatches_of_nat matchCount_def)

lemma first_maximum_head:
  "\<forall>c \<in> set cs. f c \<le> f p \<Longrightarrow> first_maximum f (p # cs) p"
  unfolding first_maximum_def by (rule exI [of _ "[]"], rule exI [of _ cs]) simp

lemma first_maximum_Cons:
  "first_maximum f cs p \<Longrightarrow> f c < f p \<Longrightarrow> first_maximum f (c # cs) p"
  unfolding first_maximum_def
proof (elim exE conjE)
  fix pre post
  assume "cs = pre @ p # post" "\<forall>c \<in> set pre. f c < f p" "\<forall>c \<in> set post. f c \<le> f p" "f c < f p"
  then have "c # cs = (c # pre) @ p # post \<and> (\<forall>c \<in> set (c # pre). f c < f p) \<and> 
     (\<forall>c \<in> set post. f c \<le> f p)" by simp
  then show "\<exists>pre post. c # cs = pre @ p # post \<and> (\<forall>c \<in> set pre. f c < f p) \<and> 
     (\<forall>c \<in> set post. f c \<le> f p)" by blast
qed

lemma foldl_max_step:
  "foldl (\<lambda>(mx, pr) c. if mx < f c then (f c, c) else (mx, pr)) (mx, pr) cs = (mx', pr') \<Longrightarrow>
     (mx' = mx \<and> pr' = pr \<and> (\<forall>c \<in> set cs. f c \<le> mx)) \<or>
     (first_maximum f cs pr' \<and> mx' = f pr' \<and> mx < mx')"
proof (induction cs arbitrary: mx pr)
  case Nil
  then show ?case by simp
next
  case (Cons c cs)
  show ?case
  proof (cases "mx < f c")
    case True
    with Cons.prems have
      "foldl (\<lambda>(mx, pr) c. if mx < f c then (f c, c) else (mx, pr)) (f c, c) cs = (mx', pr')"
      by simp
    from Cons.IH [OF this] show ?thesis
    proof
      assume "mx' = f c \<and> pr' = c \<and> (\<forall>c' \<in> set cs. f c' \<le> f c)"
      then show ?thesis using True first_maximum_head [of cs f c] by simp
    next
      assume "first_maximum f cs pr' \<and> mx' = f pr' \<and> f c < mx'"
      then show ?thesis using True first_maximum_Cons [of f cs pr' c] by simp
    qed
  next
    case False
    with Cons.prems have
      "foldl (\<lambda>(mx, pr) c. if mx < f c then (f c, c) else (mx, pr)) (mx, pr) cs = (mx', pr')"
      by simp
    from Cons.IH [OF this] show ?thesis
    proof
      assume "mx' = mx \<and> pr' = pr \<and> (\<forall>c \<in> set cs. f c \<le> mx)"
      then show ?thesis using False by simp
    next
      assume "first_maximum f cs pr' \<and> mx' = f pr' \<and> mx < mx'"
      then show ?thesis using False first_maximum_Cons [of f cs pr' c] by simp
    qed
  qed
qed


lemma foldl_primaryStep_nat:
  assumes "\<forall>c \<in> set cs. matchCount kw repo c \<le> MaxInt" and "mx \<le> MaxInt"
  shows "foldl (primaryStep kw (buildSearchText repo)) (of_nat mx, pr) cs =
     (case foldl (\<lambda>(mx, pr) c. if mx < matchCount kw repo c then (matchCount kw repo c, c)
                    else (mx, pr)) (mx, pr) cs of
        (m, p) \<Rightarrow> (of_nat m, p))"
  using assms
proof (induction cs arbitrary: mx pr)
  case Nil
  then show ?case by simp
next
  case (Cons c cs)
  have n: "matchCount kw repo c \<le> MaxInt"
    and rest: "\<forall>c \<in> set cs. matchCount kw repo c \<le> MaxInt"
    using Cons.prems(1) by simp_all
  have step: "primaryStep kw (buildSearchText repo) (of_nat mx, pr) c =
      (if mx < matchCount kw repo c then (of_nat (matchCount kw repo c), c) else (of_nat mx, pr))"
    by (simp only: primaryStep_of_nat sless_of_nat [OF Cons.prems(2) n])
  show ?case
  proof (cases "mx < matchCount kw repo c")
    case True
    then show ?thesis using Cons.IH [OF rest n, of c] step by simp
  next
    case False
    then show ?thesis using Cons.IH [OF rest Cons.prems(2), of pr] step by simp
  qed
qed

lemma selectPrimaryCategory_first_maximum:
  assumes "categories \<noteq> []"
    and "\<forall>c \<in> set categories. matchCount kw repo c \<le> MaxInt"
  shows "first_maximum (matchCount kw repo) categories (selectPrimaryCategory kw repo categories)"
proof -
  obtain first rest where cs: "categories = first # rest"
    using assms(1) by (cases categories) auto
  obtain mx' pr' where
    nat: "foldl (\<lambda>(mx, pr) c. if mx < matchCount kw repo c then (matchCount kw repo c, c)
                    else (mx, pr)) (0, first) categories = (mx', pr')"
    by (cases "foldl (\<lambda>(mx, pr) c. if mx < matchCount kw repo c then (matchCount kw repo c, c)
                    else (mx, pr)) (0, first) categories") 
  have "foldl (primaryStep kw (buildSearchText repo)) (of_nat 0, first) categories = (of_nat mx', pr')"
    using foldl_primaryStep_nat [OF assms(2), of 0 first] nat by simp
  then have sel: "selectPrimaryCategory kw repo categories = pr'"
    by (simp add: selectPrimaryCategory_def cs)
  from foldl_max_step [OF nat] have "first_maximum (matchCount kw repo) categories pr'"
  proof
    assume "mx' = 0 \<and> pr' = first \<and> (\<forall>c \<in> set categories. matchCount kw repo c \<le> 0)"
    then show ?thesis using first_maximum_head [of rest "matchCount kw repo" first] cs by simp
  next
    assume "first_maximum (matchCount kw repo) categories pr' \<and> mx' = matchCount kw repo pr' \<and> 0 < mx'"
    then show ?thesis by simp
  qed
  then show ?thesis by (simp add: sel)
qed

lemma matchCount_le: "matchCount kw repo c \<le> length (keywordsOf kw c)"
  by (simp add: matchCount_def)

lemma assignCategories_filter:
  "assignCategories kw order repo = filter (\<lambda>c. 0 < matchCount kw repo c) order"
  by (simp add: assignCategories_def matchCount_def matchesAny_iff filter_empty_conv)

lemma classifyFrom_primary:
  assumes "cr \<in> set (classifyFrom kw orders i repos)"
  shows "\<exists>j. Categories cr = assignCategories kw (orders j) (Metadata cr) \<and>
             PrimaryCategory cr = selectPrimaryCategory kw (Metadata cr) (Categories cr)"
  using assms
  by (induction repos arbitrary: i) (auto simp: Let_def split: if_splits)

lemma sample_order_eval:
  "map PrimaryCategory (Classify sampleKeywords (\<lambda>_. [''agent'', ''llm''])
      [sampleMeta ''kit'' ''An AI agent on an LLM'' []]) = [''agent'']"
  "map PrimaryCategory (Classify sampleKeywords (\<lambda>_. [''llm'', ''agent''])
      [sampleMeta ''kit'' ''An AI agent on an LLM'' []]) = [''llm'']"
  by code_simp+



lemma sample_categories: "map Categories (Classify sampleKeywords (\<lambda>_. [''agent'', ''llm''])
     [sampleMeta ''kit'' ''An AI agent on an LLM'' []]) = [[''agent'', ''llm'']]"
  by code_simp


section \<open>Properties of the summary builder\<close>

lemma repeatersOf_map_filter:
  "repeatersOf h repos =
     map (\<lambda>repo.
            \<lparr>RepeaterInfo_RepoKey = ScoredRepo_Key repo,
             RepeaterInfo_RepoName = Name (Metadata (Repo repo)),
             RepeaterInfo_URL = URL (Metadata (Repo repo)),
             RepeaterInfo_WeeksInTop = WeeksInTop (the (History h (ScoredRepo_Key repo))),
             CurrentHeat7 = Heat7 repo,
             RepeaterInfo_Category = PrimaryCategory (Repo repo)\<rparr>)
       (filter (\<lambda>repo. \<exists>e. History h (ScoredRepo_Key repo) = Some e \<and> 2 \<le> sint (WeeksInTop e))
          repos)"
  by (induction repos) (auto simp: Let_def word_sle_eq split: option.splits)

text \<open>
  C9. For every list of top repos and every history, \<^verbatim>\<open>BuildSummary\<close> returns a summary
  whose repeaters are, in order, the top repos whose key has a history entry with
  \<^verbatim>\<open>weeks_in_top >= 2\<close>, each with its key, name, URL, that \<^verbatim>\<open>weeks_in_top\<close>, its
  current Heat_7 and its primary category; a repo whose key is absent from the history is
  not among them.
\<close>

theorem BuildSummary_Repeaters:
  "\<exists>s. BuildSummary settings topRepos (Some h) runDate = Inr s \<and>
      Repeaters s =
        map (\<lambda>repo.
            \<lparr>RepeaterInfo_RepoKey = ScoredRepo_Key repo,
             RepeaterInfo_RepoName = Name (Metadata (Repo repo)),
             RepeaterInfo_URL = URL (Metadata (Repo repo)),
             RepeaterInfo_WeeksInTop = WeeksInTop (the (History h (ScoredRepo_Key repo))),
             CurrentHeat7 = Heat7 repo,
             RepeaterInfo_Category = PrimaryCategory (Repo repo)\<rparr>)
          (filter (\<lambda>repo. \<exists>e. History h (ScoredRepo_Key repo) = Some e \<and> 2 \<le> sint (WeeksInTop e))
             topRepos) \<and>
      (\<forall>repo \<in> set topRepos. History h (ScoredRepo_Key repo) = None \<longrightarrow>
         ScoredRepo_Key repo \<notin> set (map RepeaterInfo_RepoKey (Repeaters s)))"
  by (auto simp: BuildSummary_def identifyRepeaters_def repeatersOf_map_filter)

theorem BuildSummary_Repeaters_witness:
  "\<exists>s. BuildSummary sampleSettings
          [sampleRepo ''o1'' ''r1'' 10 1, sampleRepo ''o2'' ''r2'' 5 1,
           sampleRepo ''o3'' ''r3'' 4 1]
          (Some \<lparr>LatestReport = ''w2'',
                 History = [''o1/r1'' \<mapsto> sampleEntry 2 ''2024-01-07'' ''2024-01-14'',
                            ''o2/r2'' \<mapsto> sampleEntry 1 ''2024-01-14'' ''2024-01-14'']\<rparr>)
          ''2024-01-14'' = Inr s \<and>
      map RepeaterInfo_RepoKey (Repeaters s) = [''o1/r1''] \<and>
      map RepeaterInfo_WeeksInTop (Repeaters s) = [2] \<and>
      History \<lparr>LatestReport = ''w2'',
                 History = [''o1/r1'' \<mapsto> sampleEntry 2 ''2024-01-07'' ''2024-01-14'',
                            ''o2/r2'' \<mapsto> sampleEntry 1 ''2024-01-14'' ''2024-01-14'']\<rparr>
        (ScoredRepo_Key (sampleRepo ''o3'' ''r3'' 4 1)) = None"
  using BuildSummary_Repeaters [where settings = sampleSettings
      and topRepos = "[sampleRepo ''o1'' ''r1'' 10 1, sampleRepo ''o2'' ''r2'' 5 1,
           sampleRepo ''o3'' ''r3'' 4 1]"
      and h = "\<lparr>LatestReport = ''w2'',
                 History = [''o1/r1'' \<mapsto> sampleEntry 2 ''2024-01-07'' ''2024-01-14'',
                            ''o2/r2'' \<mapsto> sampleEntry 1 ''2024-01-14'' ''2024-01-14'']\<rparr>"
      and runDate = "''2024-01-14''"]
  by (auto simp: sampleEntry_def)

section \<open>Properties of the ranking\<close>

lemma sint_inj: "sint (a :: go_int) = sint b \<longleftrightarrow> a = b"
  by (auto intro: signed_word_eqI)

lemma rankLess_iff: "rankLess a b \<longleftrightarrow> rankKey a < rankKey b"
  by (auto simp: rankLess_def rankKey_def word_sless_alt sint_inj [symmetric])

lemma insertStable_insort: "insertStable rankLess x ys = insort_key rankKey x ys"
  by (induction ys) (auto simp: rankLess_iff)

lemma stableSort_sort_key: "stableSort rankLess xs = sort_key rankKey xs"
  by (induction xs) (simp_all add: stableSort_def sort_key_def insertStable_insort)

lemma rankKey_eq_iff: "rankKey a = rankKey b \<longleftrightarrow> Heat30 a = Heat30 b \<and> Score a = Score b"
  by (simp add: rankKey_def sint_inj)

lemma rankKey_le_iff:
  "rankKey a \<le> rankKey b \<longleftrightarrow>
     (sint (Heat30 b), sint (Score b)) \<le> (sint (Heat30 a), sint (Score a))"
  by (auto simp: rankKey_def less_eq_prod_def)

lemma slice_read_length:
  "slice_valid st s \<Longrightarrow> length (slice_read st s) = s_len s"
  by (auto simp: slice_valid_def slice_read_def min_def)

lemma slice_write_full:
  "s_off r = 0 \<Longrightarrow> length xs = length (arrays st (s_arr r)) \<Longrightarrow>
     slice_write st r xs = st\<lparr>arrays := (arrays st)(s_arr r := xs)\<rparr>"
  by (simp add: slice_write_def)

lemma slice_read_full:
  "s_off r = 0 \<Longrightarrow> s_len r = length (arrays st (s_arr r)) \<Longrightarrow>
     slice_read st r = arrays st (s_arr r)"
  by (simp add: slice_read_def)

lemma slice_read_other:
  "arrays st' (s_arr s) = arrays st (s_arr s) \<Longrightarrow> slice_read st' s = slice_read st s"
  by (simp add: slice_read_def)

lemma RankRepositories_eq:
  assumes "slice_valid st s"
  shows "RankRepositories st s =
     (\<lparr>s_arr = next_arr st, s_off = 0, s_len = s_len s\<rparr>,
      st\<lparr>arrays := (arrays st)(next_arr st := stableSort rankLess (slice_read st s)),
         next_arr := Suc (next_arr st)\<rparr>)"
proof -
  let ?xs = "slice_read st s"
  let ?ranked = "\<lparr>s_arr = next_arr st, s_off = 0, s_len = s_len s\<rparr>"
  let ?st1 = "st\<lparr>arrays := (arrays st)(next_arr st := replicate (s_len s) zeroScoredRepo),
         next_arr := Suc (next_arr st)\<rparr>"
  let ?st2 = "st\<lparr>arrays := (arrays st)(next_arr st := ?xs), next_arr := Suc (next_arr st)\<rparr>"
  let ?st3 = "st\<lparr>arrays := (arrays st)(next_arr st := stableSort rankLess ?xs),
         next_arr := Suc (next_arr st)\<rparr>"
  have len: "length ?xs = s_len s"
    using assms by (rule slice_read_length)
  have neq: "s_arr s \<noteq> next_arr st"
    using assms by (simp add: slice_valid_def)
  have mk: "make_slice st (s_len s) = (?ranked, ?st1)"
    by (simp add: make_slice_def)
  have rd1: "slice_read ?st1 s = ?xs"
    using neq by (intro slice_read_other) simp
  have cp: "copy_slice ?st1 ?ranked s = ?st2"
    unfolding copy_slice_def rd1
    by (simp add: slice_write_full len)
  have rd2: "slice_read ?st2 ?ranked = ?xs"
    by (simp add: slice_read_full len)
  have srt: "sort_SliceStable ?st2 ?ranked rankLess = ?st3"
    unfolding sort_SliceStable_def rd2
    by (simp add: slice_write_full stableSort_sort_key)
  show ?thesis
    unfolding RankRepositories_def mk by (simp add: cp srt)
qed

lemma RankRepositories_frame:
  "a \<noteq> next_arr st \<Longrightarrow> arrays (snd (RankRepositories st s)) a = arrays st a"
  by (simp add: RankRepositories_def make_slice_def copy_slice_def sort_SliceStable_def
        slice_write_def Let_def)

lemma RankAndSelectTop_store:
  "snd (RankAndSelectTop st s topN) = snd (RankRepositories st s)"
  by (simp add: RankAndSelectTop_def Let_def split: prod.splits)


lemma RankRepositories_slice:
  "fst (RankRepositories st s) = \<lparr>s_arr = next_arr st, s_off = 0, s_len = s_len s\<rparr>"
  by (simp add: RankRepositories_def make_slice_def Let_def)

lemma filter_take_prefix: "prefix (filter P (take k ys)) (filter P ys)"
proof -
  have "filter P ys = filter P (take k ys) @ filter P (drop k ys)"
    by (simp flip: filter_append)
  then show ?thesis by (rule prefixI)
qed

lemma sampleStore_read [simp]:
  "slice_valid sampleStore sampleSlice"
  "slice_read sampleStore sampleSlice =
     [sampleRepo ''o1'' ''r1'' 5 1, sampleRepo ''o2'' ''r2'' 9 2,
      sampleRepo ''o3'' ''r3'' 5 1, sampleRepo ''o4'' ''r4'' 9 7]"
  by (simp_all add: slice_valid_def slice_read_def sampleStore_def sampleSlice_def)

text \<open>
  C2, as stated, fails for a negative \<^verbatim>\<open>topN\<close>: the length of the ranked slice is
  greater than \<^verbatim>\<open>topN\<close>, and \<^verbatim>\<open>ranked[:topN]\<close> panics instead of returning a slice.
\<close>

theorem RankAndSelectTop_negative_topN_counterexample:
  "fst (RankAndSelectTop sampleStore sampleSlice (- 1)) = Inl SliceBoundsOutOfRange"
  by (simp add: RankAndSelectTop_def RankRepositories_eq [OF sampleStore_read(1)] word_sless_alt)

text \<open>
  C2, amended. For every valid slice of scored repos and every \<^verbatim>\<open>topN >= 0\<close>,
  \<^verbatim>\<open>RankAndSelectTop\<close> returns, without error, a slice holding the first \<^verbatim>\<open>topN\<close>
  elements of the stable sort of the input by Heat_30 descending, then Score descending
  (\<open>sort_key\<close> on \<open>rankKey\<close>): its length is \<open>min topN (length input)\<close>, it is sorted
  non-increasing in the lexicographic order of (Heat_30, Score), and the repos of one
  (Heat_30, Score) pair come in their input order.
\<close>

theorem RankAndSelectTop_stable_sorted_prefix:
  assumes "slice_valid st scoredRepos" and "0 \<le> sint topN"
  shows "\<exists>ranked st'. RankAndSelectTop st scoredRepos topN = (Inr ranked, st') \<and>
     slice_read st' ranked =
       take (nat (sint topN)) (sort_key rankKey (slice_read st scoredRepos)) \<and>
     length (slice_read st' ranked) =
       min (nat (sint topN)) (length (slice_read st scoredRepos)) \<and>
     sorted_wrt (\<lambda>a b. (sint (Heat30 b), sint (Score b)) \<le> (sint (Heat30 a), sint (Score a)))
       (slice_read st' ranked) \<and>
     (\<forall>h sc. prefix (filter (\<lambda>r. Heat30 r = h \<and> Score r = sc) (slice_read st' ranked))
                     (filter (\<lambda>r. Heat30 r = h \<and> Score r = sc) (slice_read st scoredRepos)))"
proof -
  let ?xs = "slice_read st scoredRepos"
  let ?ys = "sort_key rankKey ?xs"
  let ?k = "nat (sint topN)"
  let ?st' = "st\<lparr>arrays := (arrays st)(next_arr st := ?ys), next_arr := Suc (next_arr st)\<rparr>"
  let ?ranked = "\<lparr>s_arr = next_arr st, s_off = 0,
                  s_len = (if sint topN < int (s_len scoredRepos) then ?k else s_len scoredRepos)\<rparr>"
  have len: "length ?xs = s_len scoredRepos"
    using assms(1) by (rule slice_read_length)
  have nonneg: "\<not> topN <s 0"
    using assms(2) by (simp add: word_sless_alt)
  have run: "RankAndSelectTop st scoredRepos topN = (Inr ?ranked, ?st')"
    using nonneg
    by (simp add: RankAndSelectTop_def RankRepositories_eq [OF assms(1)] stableSort_sort_key)
  have rd: "slice_read ?st' ?ranked = take ?k ?ys"
    using assms(2) len by (auto simp: slice_read_def)
  have srt: "sorted_wrt (\<lambda>a b. rankKey a \<le> rankKey b) (take ?k ?ys)"
    using sorted_sort_key [of rankKey ?xs]
    by (simp add: sorted_map)
  have stable: "prefix (filter (\<lambda>r. Heat30 r = h \<and> Score r = sc) (take ?k ?ys))
                     (filter (\<lambda>r. Heat30 r = h \<and> Score r = sc) ?xs)" for h sc
  proof (cases "\<exists>r :: ScoredRepo. Heat30 r = h \<and> Score r = sc")
    case True
    then obtain r0 :: ScoredRepo where r0: "Heat30 r0 = h" "Score r0 = sc" by blast
    have P: "(\<lambda>r. Heat30 r = h \<and> Score r = sc) = (\<lambda>r. rankKey r = rankKey r0)"
      by (auto simp: rankKey_eq_iff r0)
    show ?thesis
      unfolding P
      using filter_take_prefix [of "\<lambda>r. rankKey r = rankKey r0" ?k ?ys]
      by (simp add: sort_key_stable)
  next
    case False
    then have "filter (\<lambda>r. Heat30 r = h \<and> Score r = sc) zs = []" for zs :: "ScoredRepo list"
      by (simp add: filter_empty_conv)
    then show ?thesis by simp
  qed
  show ?thesis
    using run rd srt stable len by (simp add: rankKey_le_iff)
qed

lemma sample_sorted_keys:
  "map ScoredRepo_Key (take 3 (sort_key rankKey
     [sampleRepo ''o1'' ''r1'' 5 1, sampleRepo ''o2'' ''r2'' 9 2,
      sampleRepo ''o3'' ''r3'' 5 1, sampleRepo ''o4'' ''r4'' 9 7])) =
   [''o4/r4'', ''o2/r2'', ''o1/r1'']"
  by code_simp

theorem RankAndSelectTop_stable_sorted_prefix_witness:
  "slice_valid sampleStore sampleSlice \<and> 0 \<le> sint (3 :: go_int) \<and>
   (\<exists>ranked st'. RankAndSelectTop sampleStore sampleSlice 3 = (Inr ranked, st') \<and>
      map ScoredRepo_Key (slice_read st' ranked) = [''o4/r4'', ''o2/r2'', ''o1/r1''] \<and>
      length (slice_read st' ranked) = 3)"
  using RankAndSelectTop_stable_sorted_prefix [of sampleStore sampleSlice 3] sample_sorted_keys
  by auto

text \<open>
  C10. \<^verbatim>\<open>RankRepositories\<close> and \<^verbatim>\<open>RankAndSelectTop\<close> change no array that was allocated
  before the call: the caller's slice reads the same elements in the same order after
  the call as before it, and the slice returned lies on a new array.
\<close>

theorem Rank_leaves_input_unchanged:
  assumes "s_arr scoredRepos < next_arr st"
  shows "(\<forall>a < next_arr st. arrays (snd (RankRepositories st scoredRepos)) a = arrays st a) \<and>
     slice_read (snd (RankRepositories st scoredRepos)) scoredRepos = slice_read st scoredRepos \<and>
     s_arr (fst (RankRepositories st scoredRepos)) \<noteq> s_arr scoredRepos \<and>
     (\<forall>a < next_arr st. arrays (snd (RankAndSelectTop st scoredRepos topN)) a = arrays st a) \<and>
     slice_read (snd (RankAndSelectTop st scoredRepos topN)) scoredRepos =
       slice_read st scoredRepos \<and>
     (\<forall>ranked. fst (RankAndSelectTop st scoredRepos topN) = Inr ranked \<longrightarrow>
        s_arr ranked \<noteq> s_arr scoredRepos)"
proof -
  have frame: "\<forall>a < next_arr st. arrays (snd (RankRepositories st scoredRepos)) a = arrays st a"
    by (simp add: RankRepositories_frame)
  then have rd: "slice_read (snd (RankRepositories st scoredRepos)) scoredRepos =
      slice_read st scoredRepos"
    using assms by (intro slice_read_other) simp
  have fresh: "s_arr (fst (RankRepositories st scoredRepos)) \<noteq> s_arr scoredRepos"
    using assms by (simp add: RankRepositories_slice)
  have sel: "\<forall>ranked. fst (RankAndSelectTop st scoredRepos topN) = Inr ranked \<longrightarrow>
        s_arr ranked \<noteq> s_arr scoredRepos"
    using fresh
    by (cases "RankRepositories st scoredRepos")
      (auto simp: RankAndSelectTop_def Let_def split: if_splits)
  show ?thesis
    using frame rd fresh sel by (simp add: RankAndSelectTop_store)
qed

theorem Rank_leaves_input_unchanged_witness:
  "s_arr sampleSlice < next_arr sampleStore \<and>
   slice_read (snd (RankRepositories sampleStore sampleSlice)) sampleSlice =
     [sampleRepo ''o1'' ''r1'' 5 1, sampleRepo ''o2'' ''r2'' 9 2,
      sampleRepo ''o3'' ''r3'' 5 1, sampleRepo ''o4'' ''r4'' 9 7] \<and>
   slice_read (snd (RankAndSelectTop sampleStore sampleSlice 3)) sampleSlice =
     [sampleRepo ''o1'' ''r1'' 5 1, sampleRepo ''o2'' ''r2'' 9 2,
      sampleRepo ''o3'' ''r3'' 5 1, sampleRepo ''o4'' ''r4'' 9 7]"
proof -
  have lt: "s_arr sampleSlice < next_arr sampleStore"
    by (simp add: sampleSlice_def sampleStore_def)
  show ?thesis
    using Rank_leaves_input_unchanged [OF lt, of 3] lt by simp
qed

end
